theory Spec2Isabelle
  imports Main "HOL-Library.Sublist"
begin

section \<open>JavaScript strings\<close>

text \<open>
  A JavaScript string is a sequence of UTF-16 code units. A code unit is modelled by its
  number, a string by the list of its code units; the regular expressions of the
  installer carry no \<open>u\<close> flag, so they see code units as well.
\<close>

type_synonym jschar = nat
type_synonym jsstring = "nat list"

definition js :: "string \<Rightarrow> jsstring" where
  "js s = map of_char s"

text \<open>The class \<open>\s\<close> of ECMAScript (white space and line terminators); \<open>trim\<close> strips
  the same set.\<close>

definition is_space :: "jschar \<Rightarrow> bool" where
  "is_space c = (c = 9 \<or> c = 10 \<or> c = 11 \<or> c = 12 \<or> c = 13 \<or> c = 32 \<or> c = 160
     \<or> c = 5760 \<or> (8192 \<le> c \<and> c \<le> 8202) \<or> c = 8232 \<or> c = 8233 \<or> c = 8239
     \<or> c = 8287 \<or> c = 12288 \<or> c = 65279)"

text \<open>The class \<open>[a-z0-9-]\<close>.\<close>

definition allowed :: "jschar \<Rightarrow> bool" where
  "allowed c = ((97 \<le> c \<and> c \<le> 122) \<or> (48 \<le> c \<and> c \<le> 57) \<or> c = 45)"

definition ascii_lower :: "jschar \<Rightarrow> jschar" where
  "ascii_lower c = (if 65 \<le> c \<and> c \<le> 90 then c + 32 else c)"

text \<open>
  \<open>String.prototype.toLowerCase\<close>. An ASCII code unit is mapped on its own (\<open>A\<close>-\<open>Z\<close> to
  \<open>a\<close>-\<open>z\<close>, anything else unchanged). What a code unit beyond ASCII becomes is decided by
  the Unicode tables of the runtime, which may look at the context (a surrogate pair, the
  final sigma) and may produce several code units, ASCII ones included (U+0130, U+212A);
  these tables are the parameter \<open>U\<close>: \<open>U s i\<close> is what the code unit at index \<open>i\<close> of
  \<open>s\<close> contributes.
\<close>

definition toLowerCase :: "(jsstring \<Rightarrow> nat \<Rightarrow> jsstring) \<Rightarrow> jsstring \<Rightarrow> jsstring" where
  "toLowerCase U s =
     concat (map (\<lambda>i. if s ! i < 128 then [ascii_lower (s ! i)] else U s i) [0..<length s])"

definition trim :: "jsstring \<Rightarrow> jsstring" where
  "trim s = rev (dropWhile is_space (rev (dropWhile is_space s)))"

section \<open>Regular expressions\<close>

text \<open>
  Every regular expression of the installer is a sequence of literals and of quantified
  character classes, some of them captured. \<open>matchHere\<close> is the backtracking matcher of
  ECMAScript on that fragment: a greedy quantifier tries the longest repetition first and
  gives characters back one at a time, a lazy one starts from the shortest. It returns the
  captures in order and the input left after the match.
\<close>

datatype quant = One | Plus | Star | LazyStar

datatype atom = Lit jsstring | Rep quant "jschar \<Rightarrow> bool" | Grp quant "jschar \<Rightarrow> bool"

fun candidates :: "quant \<Rightarrow> nat \<Rightarrow> nat list" where
  "candidates One n = (if 1 \<le> n then [1] else [])"
| "candidates Plus n = rev [1..<Suc n]"
| "candidates Star n = rev [0..<Suc n]"
| "candidates LazyStar n = [0..<Suc n]"

fun first_success :: "(nat \<Rightarrow> 'a option) \<Rightarrow> nat list \<Rightarrow> 'a option" where
  "first_success f [] = None"
| "first_success f (k # ks) = (case f k of Some r \<Rightarrow> Some r | None \<Rightarrow> first_success f ks)"

fun matchHere :: "atom list \<Rightarrow> jsstring \<Rightarrow> (jsstring list \<times> jsstring) option" where
  "matchHere [] s = Some ([], s)"
| "matchHere (Lit l # as) s =
     (if prefix l s then matchHere as (drop (length l) s) else None)"
| "matchHere (Rep q P # as) s =
     first_success (\<lambda>k. matchHere as (drop k s)) (candidates q (length (takeWhile P s)))"
| "matchHere (Grp q P # as) s =
     first_success
       (\<lambda>k. case matchHere as (drop k s) of
               None \<Rightarrow> None
             | Some (caps, rest) \<Rightarrow> Some (take k s # caps, rest))
       (candidates q (length (takeWhile P s)))"

text \<open>\<open>String.prototype.match\<close> without the \<open>g\<close> flag: the leftmost position where the
  matcher succeeds.\<close>

fun search :: "atom list \<Rightarrow> jsstring \<Rightarrow> (jsstring list \<times> jsstring) option" where
  "search re [] = matchHere re []"
| "search re (c # cs) =
     (case matchHere re (c # cs) of Some r \<Rightarrow> Some r | None \<Rightarrow> search re cs)"

text \<open>
  \<open>String.prototype.replaceAll\<close> with a global regular expression and a replacement
  without \<open>$\<close> patterns: scan from the left; a match is replaced and the scan goes on
  behind it; after an empty match the next character is copied and the scan moves on by
  one.
\<close>

function replaceAll :: "atom list \<Rightarrow> jsstring \<Rightarrow> jsstring \<Rightarrow> jsstring" where
  "replaceAll re rep [] = (case matchHere re [] of Some _ \<Rightarrow> rep | None \<Rightarrow> [])"
| "replaceAll re rep (c # cs) =
     (case matchHere re (c # cs) of
        None \<Rightarrow> c # replaceAll re rep cs
      | Some (caps, rest) \<Rightarrow>
          if length rest < length (c # cs) then rep @ replaceAll re rep rest
          else rep @ c # replaceAll re rep cs)"
  by pat_completeness auto
termination
  by (relation "measure (\<lambda>(re, rep, s). length s)") auto

section \<open>What a regular expression matches\<close>

text \<open>
  The strings a regular expression of the fragment matches, stated without reference to
  the matcher: a literal matches itself, a quantified class a run of characters of the
  class of a permitted length. \<open>occurs re s\<close>: some substring of \<open>s\<close> is matched by
  \<open>re\<close>.
\<close>

definition reps :: "quant \<Rightarrow> (jschar \<Rightarrow> bool) \<Rightarrow> jsstring \<Rightarrow> bool" where
  "reps q P m = (list_all P m \<and> (case q of One \<Rightarrow> length m = 1 | Plus \<Rightarrow> m \<noteq> [] | _ \<Rightarrow> True))"

fun lang :: "atom list \<Rightarrow> jsstring \<Rightarrow> bool" where
  "lang [] m = (m = [])"
| "lang (Lit l # as) m = (\<exists>b. m = l @ b \<and> lang as b)"
| "lang (Rep q P # as) m = (\<exists>a b. m = a @ b \<and> reps q P a \<and> lang as b)"
| "lang (Grp q P # as) m = (\<exists>a b. m = a @ b \<and> reps q P a \<and> lang as b)"

definition occurs :: "atom list \<Rightarrow> jsstring \<Rightarrow> bool" where
  "occurs re s = (\<exists>pre m post. s = pre @ m @ post \<and> lang re m)"

section \<open>The matcher finds a match exactly when there is one\<close>

lemma first_success_None: "first_success f ks = None \<longleftrightarrow> (\<forall>k \<in> set ks. f k = None)"
  by (induction ks) (auto split: option.splits)

lemma first_success_Some: "first_success f ks = Some r \<Longrightarrow> \<exists>k \<in> set ks. f k = Some r"
  by (induction ks) (auto split: option.splits)

lemma set_candidates:
  "k \<in> set (candidates q n) \<longleftrightarrow>
     k \<le> n \<and> (case q of One \<Rightarrow> k = 1 | Plus \<Rightarrow> 1 \<le> k | _ \<Rightarrow> True)"
  by (cases q) auto

lemma take_takeWhile_all:
  assumes "k \<le> length (takeWhile P s)"
  shows "list_all P (take k s)"
proof -
  have "take k s = take k (takeWhile P s @ dropWhile P s)" by simp
  also have "\<dots> = take k (takeWhile P s)" using assms by (simp del: takeWhile_dropWhile_id)
  finally have "set (take k s) \<subseteq> set (takeWhile P s)" by (simp add: set_take_subset)
  then show ?thesis by (auto simp: list_all_iff dest: set_takeWhileD)
qed

lemma all_prefix_le_takeWhile: "list_all P a \<Longrightarrow> length a \<le> length (takeWhile P (a @ t))"
  by (simp add: list_all_iff takeWhile_append2)

lemma reps_take:
  assumes "k \<in> set (candidates q (length (takeWhile P s)))"
  shows "reps q P (take k s) \<and> k \<le> length s"
proof -
  from assms have k: "k \<le> length (takeWhile P s)"
    and q: "(case q of One \<Rightarrow> k = 1 | Plus \<Rightarrow> 1 \<le> k | _ \<Rightarrow> True)"
    by (simp_all add: set_candidates)
  have "length (takeWhile P s) \<le> length s" by (rule length_takeWhile_le)
  with k have ks: "k \<le> length s" by simp
  from k have "list_all P (take k s)" by (rule take_takeWhile_all)
  with q ks show ?thesis by (cases q) (auto simp: reps_def)
qed

lemma reps_candidate:
  assumes "reps q P a"
  shows "length a \<in> set (candidates q (length (takeWhile P (a @ t))))"
proof -
  from assms have "length a \<le> length (takeWhile P (a @ t))"
    by (simp add: reps_def all_prefix_le_takeWhile)
  moreover have "a \<noteq> [] \<Longrightarrow> Suc 0 \<le> length a" by (cases a) simp_all
  ultimately show ?thesis using assms by (cases q) (auto simp: set_candidates reps_def)
qed

lemma first_success_not_None: "k \<in> set ks \<Longrightarrow> f k \<noteq> None \<Longrightarrow> first_success f ks \<noteq> None"
  by (auto simp: first_success_None)

lemma matchHere_sound:
  "matchHere re s = Some (caps, rest) \<Longrightarrow> \<exists>m. s = m @ rest \<and> lang re m"
proof (induction re arbitrary: s caps rest)
  case Nil
  then show ?case by simp
next
  case (Cons a as)
  show ?case
  proof (cases a)
    case (Lit l)
    with Cons.prems have p: "prefix l s" and m: "matchHere as (drop (length l) s) = Some (caps, rest)"
      by (simp_all split: if_splits)
    from Cons.IH [OF m] obtain m' where m': "drop (length l) s = m' @ rest" "lang as m'" by blast
    from p obtain t where "s = l @ t" by (auto simp: prefix_def)
    with m' have "s = (l @ m') @ rest" by simp
    with m' Lit show ?thesis by (metis lang.simps(2))
  next
    case (Rep q P)
    with Cons.prems obtain k where k: "k \<in> set (candidates q (length (takeWhile P s)))"
      and m: "matchHere as (drop k s) = Some (caps, rest)"
      by (auto dest: first_success_Some)
    from Cons.IH [OF m] obtain m' where m': "drop k s = m' @ rest" "lang as m'" by blast
    have "s = take k s @ drop k s" by simp
    with m' have "s = (take k s @ m') @ rest" by simp
    moreover have "lang (a # as) (take k s @ m')"
      using Rep reps_take [OF k] m' by auto
    ultimately show ?thesis by blast
  next
    case (Grp q P)
    with Cons.prems obtain k where k: "k \<in> set (candidates q (length (takeWhile P s)))"
      and m: "(case matchHere as (drop k s) of None \<Rightarrow> None
                | Some (caps, rest) \<Rightarrow> Some (take k s # caps, rest)) = Some (caps, rest)"
      by (auto dest: first_success_Some)
    then obtain caps' where m2: "matchHere as (drop k s) = Some (caps', rest)"
      by (auto split: option.splits)
    from Cons.IH [OF m2] obtain m' where m': "drop k s = m' @ rest" "lang as m'" by blast
    have "s = take k s @ drop k s" by simp
    with m' have "s = (take k s @ m') @ rest" by simp
    moreover have "lang (a # as) (take k s @ m')"
      using Grp reps_take [OF k] m' by auto
    ultimately show ?thesis by blast
  qed
qed

lemma matchHere_complete:
  "lang re m \<Longrightarrow> \<exists>res. matchHere re (m @ r) = Some res"
proof (induction re arbitrary: m)
  case Nil
  then show ?case by simp
next
  case (Cons a as)
  show ?case
  proof (cases a)
    case (Lit l)
    with Cons.prems obtain b where b: "m = l @ b" "lang as b" by auto
    from Cons.IH [OF b(2)] obtain res where "matchHere as (b @ r) = Some res" by blast
    with b Lit show ?thesis by simp
  next
    case (Rep q P)
    with Cons.prems obtain x b where b: "m = x @ b" "reps q P x" "lang as b" by auto
    from Cons.IH [OF b(3)] obtain res where res: "matchHere as (b @ r) = Some res" by blast
    have "length x \<in> set (candidates q (length (takeWhile P (m @ r))))"
      using reps_candidate [OF b(2), of "b @ r"] b(1) by simp
    moreover have "matchHere as (drop (length x) (m @ r)) \<noteq> None"
      using res b(1) by simp
    ultimately have "first_success (\<lambda>k. matchHere as (drop k (m @ r)))
        (candidates q (length (takeWhile P (m @ r)))) \<noteq> None"
      by (rule first_success_not_None)
    with Rep show ?thesis by auto
  next
    case (Grp q P)
    with Cons.prems obtain x b where b: "m = x @ b" "reps q P x" "lang as b" by auto
    from Cons.IH [OF b(3)] obtain res where res: "matchHere as (b @ r) = Some res" by blast
    have "length x \<in> set (candidates q (length (takeWhile P (m @ r))))"
      using reps_candidate [OF b(2), of "b @ r"] b(1) by simp
    moreover have "(case matchHere as (drop (length x) (m @ r)) of None \<Rightarrow> None
                | Some (caps, rest) \<Rightarrow> Some (take (length x) (m @ r) # caps, rest)) \<noteq> None"
      using res b(1) by (auto split: option.splits prod.splits)
    ultimately have "first_success (\<lambda>k. case matchHere as (drop k (m @ r)) of None \<Rightarrow> None
                | Some (caps, rest) \<Rightarrow> Some (take k (m @ r) # caps, rest))
        (candidates q (length (takeWhile P (m @ r)))) \<noteq> None"
      by (rule first_success_not_None)
    with Grp show ?thesis by auto
  qed
qed

lemma search_sound:
  "search re s = Some (caps, rest) \<Longrightarrow> \<exists>pre m. s = pre @ m @ rest \<and> lang re m"
proof (induction s)
  case Nil
  then show ?case using matchHere_sound [of re "[]" caps rest] by auto
next
  case (Cons c cs)
  show ?case
  proof (cases "matchHere re (c # cs)")
    case None
    with Cons.prems have "search re cs = Some (caps, rest)" by simp
    from Cons.IH [OF this] obtain pre m where "cs = pre @ m @ rest" "lang re m" by blast
    then have "c # cs = (c # pre) @ m @ rest \<and> lang re m" by simp
    then show ?thesis by blast
  next
    case (Some r)
    with Cons.prems have "matchHere re (c # cs) = Some (caps, rest)" by simp
    from matchHere_sound [OF this] obtain m where "c # cs = [] @ m @ rest \<and> lang re m" by auto
    then show ?thesis by blast
  qed
qed

lemma search_complete:
  "lang re m \<Longrightarrow> \<exists>res. search re (pre @ m @ post) = Some res"
proof (induction pre)
  case Nil
  from matchHere_complete [OF Nil, of post] obtain res where r: "matchHere re (m @ post) = Some res"
    by blast
  then show ?case by (cases "m @ post") auto
next
  case (Cons c pre)
  then show ?case by (auto split: option.splits)
qed

lemma search_None_iff: "search re s = None \<longleftrightarrow> \<not> occurs re s"
proof
  assume n: "search re s = None"
  show "\<not> occurs re s"
  proof
    assume "occurs re s"
    then obtain pre m post where "s = pre @ m @ post" "lang re m" by (auto simp: occurs_def)
    with search_complete [of re m pre post] n show False by auto
  qed
next
  assume n: "\<not> occurs re s"
  show "search re s = None"
  proof (cases "search re s")
    case None
    then show ?thesis .
  next
    case (Some r)
    obtain caps rest where "r = (caps, rest)" by (cases r)
    with Some search_sound [of re s caps rest] n show ?thesis by (auto simp: occurs_def)
  qed
qed

lemma lang_Lit_length: "lang (Lit l # as) m \<Longrightarrow> length l \<le> length m"
  by auto

lemma search_rest_shorter:
  assumes "search (Lit l # as) s = Some (caps, rest)" and "l \<noteq> []"
  shows "length rest < length s"
proof -
  from search_sound [OF assms(1)] obtain pre m where s: "s = pre @ m @ rest" and m: "lang (Lit l # as) m"
    by blast
  from m have "length l \<le> length m" by (rule lang_Lit_length)
  moreover from assms(2) have "1 \<le> length l" by (cases l) simp_all
  moreover have "length s = length pre + length m + length rest" using s by simp
  ultimately show ?thesis by linarith
qed

section \<open>Identifier sanitization\<close>

text \<open>
  \<^verbatim>\<open>name.toLowerCase().replaceAll(/\s+/g, '-').replaceAll(/[^a-z0-9-]/g, '')\<close>
\<close>

definition sanitizeAgentName :: "(jsstring \<Rightarrow> nat \<Rightarrow> jsstring) \<Rightarrow> jsstring \<Rightarrow> jsstring" where
  "sanitizeAgentName U name =
     replaceAll [Rep One (\<lambda>c. \<not> allowed c)] []
       (replaceAll [Rep Plus is_space] (js ''-'') (toLowerCase U name))"

text \<open>The rule in the specification's words: every maximal run of white space becomes
  one hyphen.\<close>

function spec_collapse_ws :: "jsstring \<Rightarrow> jsstring" where
  "spec_collapse_ws [] = []"
| "spec_collapse_ws (c # cs) =
     (if is_space c then 45 # spec_collapse_ws (dropWhile is_space cs)
      else c # spec_collapse_ws cs)"
  by pat_completeness auto
termination
  by (relation "measure length") (auto simp: length_dropWhile_le less_Suc_eq_le)

definition spec_sanitize :: "(jsstring \<Rightarrow> nat \<Rightarrow> jsstring) \<Rightarrow> jsstring \<Rightarrow> jsstring" where
  "spec_sanitize U name = filter allowed (spec_collapse_ws (toLowerCase U name))"

section \<open>Extraction of the agent record\<close>

text \<open>The default icon, U+1F916, as its surrogate pair.\<close>

definition robot_glyph :: jsstring where
  "robot_glyph = [55358, 56598]"

record artifact =
  art_name :: jsstring
  art_description :: jsstring
  art_module :: jsstring
  art_sourcePath :: "jsstring list"

record menu_item =
  trigger :: jsstring
  description :: jsstring

datatype principles_value = PString jsstring | PArray "jsstring list"

record agent_data =
  name :: jsstring
  title :: jsstring
  icon :: jsstring
  role :: jsstring
  identity :: jsstring
  communicationStyle :: jsstring
  principles :: principles_value
  menuItems :: "menu_item list"

text \<open>\<^verbatim>\<open>/<agent\s+([^>]+)>/\<close>\<close>

definition agentTagRe :: "atom list" where
  "agentTagRe = [Lit (js ''<agent''), Rep Plus is_space, Grp Plus (\<lambda>c. c \<noteq> 62), Lit (js ''>'')]"

text \<open>\<^verbatim>\<open>/name="([^"]+)"/\<close>, and the same for \<open>title\<close> and \<open>icon\<close>; 34 is the double quote.\<close>

definition attrRe :: "string \<Rightarrow> atom list" where
  "attrRe a = [Lit (js a @ js ''='' @ [34]), Grp Plus (\<lambda>c. c \<noteq> 34), Lit [34]]"

text \<open>\<^verbatim>\<open>/<persona>([\s\S]*?)<\/persona>/\<close>, and the same for \<open>menu\<close>.\<close>

definition blockRe :: "string \<Rightarrow> atom list" where
  "blockRe t = [Lit (js ''<'' @ js t @ js ''>''), Grp LazyStar (\<lambda>c. True),
                Lit (js ''</'' @ js t @ js ''>'')]"

text \<open>\<^verbatim>\<open>/<role>([^<]+)<\/role>/\<close>, and the same for the other three fields of the persona.\<close>

definition fieldRe :: "string \<Rightarrow> atom list" where
  "fieldRe t = [Lit (js ''<'' @ js t @ js ''>''), Grp Plus (\<lambda>c. c \<noteq> 60),
                Lit (js ''</'' @ js t @ js ''>'')]"

text \<open>\<^verbatim>\<open>/<item\s+cmd="([^"]+)"[^>]*>([^<]+)<\/item>/g\<close>\<close>

definition itemRe :: "atom list" where
  "itemRe = [Lit (js ''<item''), Rep Plus is_space, Lit (js ''cmd='' @ [34]),
             Grp Plus (\<lambda>c. c \<noteq> 34), Lit [34], Rep Star (\<lambda>c. c \<noteq> 62), Lit (js ''>''),
             Grp Plus (\<lambda>c. c \<noteq> 60), Lit (js ''</item>'')]"

text \<open>The first capture of the leftmost match: \<^verbatim>\<open>s.match(re)\<close>, then \<^verbatim>\<open>[1]\<close>.\<close>

definition match1 :: "atom list \<Rightarrow> jsstring \<Rightarrow> jsstring option" where
  "match1 re s = (case search re s of Some (c # cs, rest) \<Rightarrow> Some c | _ \<Rightarrow> None)"

text \<open>The loop \<^verbatim>\<open>while ((itemMatch = itemRegex.exec(menuMatch[1])) !== null)\<close>: with the
  \<open>g\<close> flag every \<open>exec\<close> searches from where the last match ended.\<close>

function execItems :: "jsstring \<Rightarrow> menu_item list" where
  "execItems s =
     (case search itemRe s of
        Some ([cmd, text], rest) \<Rightarrow>
          \<lparr>trigger = cmd, description = trim text\<rparr> # execItems rest
      | _ \<Rightarrow> [])"
  by pat_completeness auto
termination
proof (relation "measure length")
  show "wf (measure length)" by simp
next
  fix s x2 x1 x2a x21 x22 x21a x22a
  assume "search itemRe s = Some x2" "(x1, x2a) = x2" "x1 = x21 # x22" "x22 = x21a # x22a" "x22a = []"
  then have "search itemRe s = Some ([x21, x21a], x2a)" by simp
  then have "length x2a < length s"
    unfolding itemRe_def by (rule search_rest_shorter) (simp add: js_def)
  then show "(x2a, s) \<in> measure length" by simp
qed

declare execItems.simps [simp del]

definition persona_field :: "string \<Rightarrow> jsstring \<Rightarrow> jsstring" where
  "persona_field t personaContent =
     (case match1 (fieldRe t) personaContent of Some v \<Rightarrow> trim v | None \<Rightarrow> [])"

definition parseCompiledAgent :: "jsstring \<Rightarrow> artifact \<Rightarrow> agent_data option" where
  "parseCompiledAgent content artifact =
     (case match1 agentTagRe content of
        None \<Rightarrow> None
      | Some attrs \<Rightarrow>
          let nameMatch = match1 (attrRe ''name'') attrs;
              titleMatch = match1 (attrRe ''title'') attrs;
              iconMatch = match1 (attrRe ''icon'') attrs;
              personaMatch = match1 (blockRe ''persona'') content;
              (role', identity', communicationStyle', principles') =
                (case personaMatch of
                   None \<Rightarrow> ([], [], [], [])
                 | Some personaContent \<Rightarrow>
                     (persona_field ''role'' personaContent,
                      persona_field ''identity'' personaContent,
                      persona_field ''communication_style'' personaContent,
                      persona_field ''principles'' personaContent));
              menuMatch = match1 (blockRe ''menu'') content;
              menuItems' = (case menuMatch of None \<Rightarrow> [] | Some m \<Rightarrow> execItems m)
          in Some \<lparr>name = (case nameMatch of Some v \<Rightarrow> v | None \<Rightarrow> art_name artifact),
                   title = (case titleMatch of Some v \<Rightarrow> v | None \<Rightarrow> art_description artifact),
                   icon = (case iconMatch of Some v \<Rightarrow> v | None \<Rightarrow> robot_glyph),
                   role = role', identity = identity',
                   communicationStyle = communicationStyle',
                   principles = PString principles', menuItems = menuItems'\<rparr>)"

text \<open>
  The notions of the specification, stated on the text alone: an opening agent tag with
  attributes is \<open><agent\<close>, white space, a non-empty text without \<open>>\<close>, and \<open>>\<close>; a block
  is an opening tag with a closing tag somewhere behind it; an attribute is its name,
  \<open>="\<close>, a non-empty value without a double quote, and the closing double quote.
\<close>

definition has_agent_tag :: "jsstring \<Rightarrow> bool" where
  "has_agent_tag content =
     (\<exists>pre ws attrs post.
        content = pre @ js ''<agent'' @ ws @ attrs @ js ''>'' @ post
        \<and> ws \<noteq> [] \<and> list_all is_space ws
        \<and> attrs \<noteq> [] \<and> list_all (\<lambda>c. c \<noteq> 62) attrs)"

definition has_block :: "string \<Rightarrow> jsstring \<Rightarrow> bool" where
  "has_block t content =
     (\<exists>pre body post.
        content = pre @ js ''<'' @ js t @ js ''>'' @ body @ js ''</'' @ js t @ js ''>'' @ post)"

definition has_attr :: "string \<Rightarrow> jsstring \<Rightarrow> bool" where
  "has_attr a attrs =
     (\<exists>pre v post.
        attrs = pre @ js a @ js ''='' @ [34] @ v @ [34] @ post
        \<and> v \<noteq> [] \<and> list_all (\<lambda>c. c \<noteq> 34) v)"

text \<open>The number of capture groups of an expression.\<close>

fun ngroups :: "atom list \<Rightarrow> nat" where
  "ngroups [] = 0"
| "ngroups (Grp q P # as) = Suc (ngroups as)"
| "ngroups (a # as) = ngroups as"

section \<open>The prompt document\<close>

text \<open>Number to string, as a template literal renders a non-negative integer.\<close>

function decimal :: "nat \<Rightarrow> jsstring" where
  "decimal n = (if n < 10 then [48 + n] else decimal (n div 10) @ [48 + n mod 10])"
  by pat_completeness auto
termination
  by (relation "measure id") auto

declare decimal.simps [simp del]

fun menuLines :: "nat \<Rightarrow> menu_item list \<Rightarrow> jsstring \<Rightarrow> jsstring" where
  "menuLines i [] prompt = prompt"
| "menuLines i (item # items) prompt =
     menuLines (Suc i) items
       (prompt @ decimal (i + 1) @ js ''. **'' @ trigger item @ js ''**: ''
          @ description item @ [10])"

fun principleLines :: "jsstring list \<Rightarrow> jsstring \<Rightarrow> jsstring" where
  "principleLines [] prompt = prompt"
| "principleLines (principle # ps) prompt =
     principleLines ps (prompt @ js ''- '' @ principle @ [10])"

text \<open>JavaScript truthiness of the \<open>principles\<close> field: a string is truthy when it is not
  empty, an array always.\<close>

fun truthy :: "principles_value \<Rightarrow> bool" where
  "truthy (PString p) = (p \<noteq> [])"
| "truthy (PArray ps) = True"

definition generatePrompt :: "agent_data \<Rightarrow> jsstring" where
  "generatePrompt agentData =
     (let prompt = js ''# '' @ name agentData @ js '' '' @ icon agentData @ [10, 10];
          prompt = (if role agentData \<noteq> []
                    then prompt @ js ''## Role'' @ [10] @ role agentData @ [10, 10]
                    else prompt);
          prompt = (if identity agentData \<noteq> []
                    then prompt @ js ''## Identity'' @ [10] @ identity agentData @ [10, 10]
                    else prompt);
          prompt = (if communicationStyle agentData \<noteq> []
                    then prompt @ js ''## Communication Style'' @ [10]
                           @ communicationStyle agentData @ [10, 10]
                    else prompt);
          prompt = (if truthy (principles agentData)
                    then (let prompt = prompt @ js ''## Principles'' @ [10]
                          in case principles agentData of
                               PString p \<Rightarrow> prompt @ p @ [10, 10]
                             | PArray ps \<Rightarrow> principleLines ps prompt @ [10])
                    else prompt);
          prompt = (if menuItems agentData \<noteq> []
                    then menuLines 0 (menuItems agentData)
                           (prompt @ js ''## Available Workflows'' @ [10]) @ [10]
                    else prompt)
      in prompt @ js ''## Instructions'' @ [10] @ js ''You are '' @ name agentData
           @ js '', part of the BMad Method. Follow your role and principles while assisting users with their development needs.''
           @ [10])"

text \<open>The document in the specification's words.\<close>

definition spec_section :: "string \<Rightarrow> jsstring \<Rightarrow> jsstring" where
  "spec_section heading body =
     (if body = [] then [] else js ''## '' @ js heading @ [10] @ body @ [10, 10])"

definition spec_menu_line :: "nat \<times> menu_item \<Rightarrow> jsstring" where
  "spec_menu_line = (\<lambda>(n, item).
     decimal n @ js ''. **'' @ trigger item @ js ''**: '' @ description item @ [10])"

definition spec_menu_section :: "menu_item list \<Rightarrow> jsstring" where
  "spec_menu_section items =
     (if items = [] then []
      else js ''## Available Workflows'' @ [10]
           @ concat (map spec_menu_line (zip [1..<Suc (length items)] items)) @ [10])"

definition spec_closing :: "jsstring \<Rightarrow> jsstring" where
  "spec_closing n = js ''## Instructions'' @ [10] @ js ''You are '' @ n
     @ js '', part of the BMad Method. Follow your role and principles while assisting users with their development needs.''
     @ [10]"

section \<open>The configuration object\<close>

text \<open>\<open>Array.prototype.join\<close>\<close>

fun join_with :: "jsstring \<Rightarrow> jsstring list \<Rightarrow> jsstring" where
  "join_with sep [] = []"
| "join_with sep [x] = x"
| "join_with sep (x # y # ys) = x @ sep @ join_with sep (y # ys)"

text \<open>
  \<open>path.posix.join\<close> of Node.js: the non-empty arguments are joined by \<open>/\<close> and the result
  is normalized, segment by segment: empty segments and \<open>.\<close> are dropped, \<open>..\<close> removes
  the segment before it (or stays, in a relative path, when there is none to remove).
\<close>

fun split_sep :: "jsstring \<Rightarrow> jsstring list" where
  "split_sep [] = [[]]"
| "split_sep (c # cs) =
     (if c = 47 then [] # split_sep cs
      else (case split_sep cs of seg # segs \<Rightarrow> (c # seg) # segs | [] \<Rightarrow> [[c]]))"

fun resolve_segments :: "bool \<Rightarrow> jsstring list \<Rightarrow> jsstring list \<Rightarrow> jsstring list" where
  "resolve_segments allowAboveRoot res [] = res"
| "resolve_segments allowAboveRoot res (seg # segs) =
     (if seg = [] \<or> seg = js ''.'' then resolve_segments allowAboveRoot res segs
      else if seg = js ''..'' then
        (if res \<noteq> [] \<and> last res \<noteq> js ''..''
         then resolve_segments allowAboveRoot (butlast res) segs
         else if allowAboveRoot then resolve_segments allowAboveRoot (res @ [js ''..'']) segs
         else resolve_segments allowAboveRoot res segs)
      else resolve_segments allowAboveRoot (res @ [seg]) segs)"

definition posix_normalize :: "jsstring \<Rightarrow> jsstring" where
  "posix_normalize p =
     (if p = [] then js ''.''
      else
        let isAbsolute = (hd p = 47);
            trailingSeparator = (last p = 47);
            res = join_with (js ''/'') (resolve_segments (\<not> isAbsolute) [] (split_sep p))
        in if res = [] then (if isAbsolute then js ''/''
                             else if trailingSeparator then js ''./'' else js ''.'')
           else (let res = (if trailingSeparator then res @ js ''/'' else res)
                 in if isAbsolute then 47 # res else res))"

definition posix_join :: "jsstring list \<Rightarrow> jsstring" where
  "posix_join args =
     (let parts = filter (\<lambda>a. a \<noteq> []) args
      in if parts = [] then js ''.'' else posix_normalize (join_with (js ''/'') parts))"

record agent_config =
  cfg_name :: jsstring
  cfg_description :: jsstring
  cfg_prompt :: jsstring
  cfg_tools :: "jsstring list"
  cfg_mcpServers :: "(jsstring \<times> jsstring) list"
  cfg_useLegacyMcpJson :: bool
  cfg_resources :: "jsstring list"

record ajv_error =
  instancePath :: jsstring
  message :: jsstring

datatype error = Error jsstring

text \<open>
  The compiled schema validator of Ajv is a black box: \<open>validate agentConfig\<close> is \<open>None\<close>
  when the call returns \<open>true\<close>, and \<open>Some errors\<close>, the content of \<open>validate.errors\<close>,
  when it returns \<open>false\<close>.
\<close>

definition validateAgentJson ::
  "(agent_config \<Rightarrow> ajv_error list option) \<Rightarrow> agent_config \<Rightarrow> error + unit" where
  "validateAgentJson validate agentConfig =
     (case validate agentConfig of
        None \<Rightarrow> Inr ()
      | Some errors \<Rightarrow>
          let errorDetails =
                join_with (js '', '') (map (\<lambda>err. instancePath err @ js '': '' @ message err) errors)
          in Inl (Error (js ''Invalid agent schema: '' @ errorDetails)))"

definition buildAgentConfig :: "jsstring \<Rightarrow> agent_data \<Rightarrow> agent_config" where
  "buildAgentConfig agentName agentData =
     \<lparr>cfg_name = agentName,
      cfg_description = name agentData @ js '' - ''
        @ (if role agentData \<noteq> [] then role agentData else title agentData),
      cfg_prompt = js ''file://'' @ posix_join [js ''.'', agentName @ js ''-prompt.md''],
      cfg_tools = [js ''*''],
      cfg_mcpServers = [],
      cfg_useLegacyMcpJson = True,
      cfg_resources = []\<rparr>"

definition createAgentConfig ::
  "(agent_config \<Rightarrow> ajv_error list option) \<Rightarrow> jsstring \<Rightarrow> agent_data \<Rightarrow> error + agent_config" where
  "createAgentConfig validate agentName agentData =
     (let agentConfig = buildAgentConfig agentName agentData
      in case validateAgentJson validate agentConfig of
           Inl e \<Rightarrow> Inl e
         | Inr _ \<Rightarrow> Inr agentConfig)"



section \<open>The file system\<close>

text \<open>
  A path is the list of its segments. The file system maps a path to its node: a file
  with its content, or a directory with the names of its entries in listing order.
  Whether an operation fails for a reason outside this state (permissions, a full disk,
  a locked file) is decided by the environment: a fault gives the message of the error
  thrown.
\<close>

type_synonym path = "jsstring list"

datatype node = File jsstring | Dir "jsstring list"

type_synonym fs = "path \<Rightarrow> node option"

record faults =
  readFault :: "path \<Rightarrow> jsstring option"
  writeFault :: "path \<Rightarrow> jsstring option"
  removeFault :: "path \<Rightarrow> jsstring option"
  readdirFault :: "path \<Rightarrow> jsstring option"


definition readFile :: "faults \<Rightarrow> fs \<Rightarrow> path \<Rightarrow> error + jsstring" where
  "readFile F fs p =
     (case readFault F p of
        Some msg \<Rightarrow> Inl (Error msg)
      | None \<Rightarrow>
          (case fs p of
             Some (File content) \<Rightarrow> Inr content
           | Some (Dir _) \<Rightarrow> Inl (Error (js ''EISDIR''))
           | None \<Rightarrow> Inl (Error (js ''ENOENT''))))"


text \<open>\<open>fs.writeFile\<close>: the parent must be a directory and the target must not be one; a
  new name is entered in the parent's listing.\<close>

definition writeFile :: "faults \<Rightarrow> fs \<Rightarrow> path \<Rightarrow> jsstring \<Rightarrow> error + fs" where
  "writeFile F fs p content =
     (case writeFault F p of
        Some msg \<Rightarrow> Inl (Error msg)
      | None \<Rightarrow>
          (case fs (butlast p) of
             None \<Rightarrow> Inl (Error (js ''ENOENT''))
           | Some (File _) \<Rightarrow> Inl (Error (js ''ENOTDIR''))
           | Some (Dir names) \<Rightarrow>
               (case fs p of
                  Some (Dir _) \<Rightarrow> Inl (Error (js ''EISDIR''))
                | _ \<Rightarrow>
                    Inr (fs(butlast p \<mapsto> Dir (if last p \<in> set names then names
                                                 else names @ [last p]),
                            p \<mapsto> File content)))))"

text \<open>\<open>fs.remove\<close> of fs-extra: removes a file, or a directory with everything below it;
  a path that does not exist is not an error.\<close>

definition delete :: "path \<Rightarrow> fs \<Rightarrow> fs" where
  "delete p fs =
     (\<lambda>q. if prefix p q then None
          else if q = butlast p then
            (case fs q of
               Some (Dir names) \<Rightarrow> Some (Dir (filter (\<lambda>n. n \<noteq> last p) names))
             | other \<Rightarrow> other)
          else fs q)"

definition remove :: "faults \<Rightarrow> fs \<Rightarrow> path \<Rightarrow> error + fs" where
  "remove F fs p =
     (case removeFault F p of
        Some msg \<Rightarrow> Inl (Error msg)
      | None \<Rightarrow> Inr (delete p fs))"

section \<open>Writing the pair of files of one agent\<close>

text \<open>
  The environment of a run: the Unicode tables behind \<open>toLowerCase\<close>, the compiled schema
  validator, \<open>JSON.stringify(_, null, 2)\<close> on a configuration object, and the faults of the
  file system.
\<close>

record env =
  lowerTable :: "jsstring \<Rightarrow> nat \<Rightarrow> jsstring"
  validate :: "agent_config \<Rightarrow> ajv_error list option"
  stringify :: "agent_config \<Rightarrow> jsstring"
  fsFaults :: faults

text \<open>\<open>fs.writeJson(path, object, { spaces: 2 })\<close> writes the serialization and a final
  newline.\<close>

definition writeJson :: "env \<Rightarrow> fs \<Rightarrow> path \<Rightarrow> agent_config \<Rightarrow> error + fs" where
  "writeJson E fs p obj = writeFile (fsFaults E) fs p (stringify E obj @ [10])"

text \<open>The body of the \<open>try\<close> block: the error thrown, if any, and the file system as it
  is at that moment.\<close>

definition generatePair ::
  "env \<Rightarrow> jsstring \<Rightarrow> agent_data \<Rightarrow> path \<Rightarrow> path \<Rightarrow> fs \<Rightarrow> (error + unit) \<times> fs" where
  "generatePair E sanitizedAgentName agentData jsonPath promptPath fs =
     (case createAgentConfig (validate E) sanitizedAgentName agentData of
        Inl e \<Rightarrow> (Inl e, fs)
      | Inr agentConfig \<Rightarrow>
          let promptContent = generatePrompt agentData
          in (case writeFile (fsFaults E) fs promptPath promptContent of
                Inl e \<Rightarrow> (Inl e, fs)
              | Inr fs1 \<Rightarrow>
                  (case writeJson E fs1 jsonPath agentConfig of
                     Inl e \<Rightarrow> (Inl e, fs1)
                   | Inr fs2 \<Rightarrow> (Inr (), fs2))))"

text \<open>\<^verbatim>\<open>await fs.remove(p).catch(() => {})\<close>\<close>

definition removeQuietly :: "env \<Rightarrow> fs \<Rightarrow> path \<Rightarrow> fs" where
  "removeQuietly E fs p = (case remove (fsFaults E) fs p of Inl _ \<Rightarrow> fs | Inr fs' \<Rightarrow> fs')"

definition processAgentArtifact ::
  "env \<Rightarrow> artifact \<Rightarrow> path \<Rightarrow> path \<Rightarrow> fs \<Rightarrow> (error + unit) \<times> fs" where
  "processAgentArtifact E artifact agentsDir projectDir fs =
     (case readFile (fsFaults E) fs (art_sourcePath artifact) of
        Inl e \<Rightarrow> (Inl e, fs)
      | Inr agentContent \<Rightarrow>
          (case parseCompiledAgent agentContent artifact of
             None \<Rightarrow> (Inr (), fs)
           | Some agentData \<Rightarrow>
               let agentName = js ''bmad-'' @ art_module artifact @ js ''-'' @ art_name artifact;
                   sanitizedAgentName = sanitizeAgentName (lowerTable E) agentName;
                   jsonPath = agentsDir @ [sanitizedAgentName @ js ''.json''];
                   promptPath = agentsDir @ [sanitizedAgentName @ js ''-prompt.md'']
               in (case generatePair E sanitizedAgentName agentData jsonPath promptPath fs of
                     (Inr _, fs') \<Rightarrow> (Inr (), fs')
                   | (Inl error, fs1) \<Rightarrow>
                       (Inl error,
                        removeQuietly E (removeQuietly E fs1 promptPath) jsonPath))))"
text \<open>The name and the two paths that \<open>processAgentArtifact\<close> computes for an artifact.\<close>

definition sanitizedNameOf :: "env \<Rightarrow> artifact \<Rightarrow> jsstring" where
  "sanitizedNameOf E a =
     sanitizeAgentName (lowerTable E) (js ''bmad-'' @ art_module a @ js ''-'' @ art_name a)"

definition jsonPathOf :: "env \<Rightarrow> artifact \<Rightarrow> path \<Rightarrow> path" where
  "jsonPathOf E a agentsDir = agentsDir @ [sanitizedNameOf E a @ js ''.json'']"

definition promptPathOf :: "env \<Rightarrow> artifact \<Rightarrow> path \<Rightarrow> path" where
  "promptPathOf E a agentsDir = agentsDir @ [sanitizedNameOf E a @ js ''-prompt.md'']"

section \<open>Cleanup of an earlier installation\<close>

text \<open>
  Of the console output only the warnings (\<open>console.warn\<close>) are modelled, as the list of
  their lines in order; the counters of \<open>cleanup\<close> feed \<open>console.log\<close> only and are left
  out. The state is the file system and the warnings so far.
\<close>

type_synonym world = "fs \<times> jsstring list"














section \<open>Discovery of the modules\<close>









section \<open>The run\<close>




record steering_results =
  generated :: nat
  errors :: "jsstring list"















record skipped_item =
  item_type :: jsstring
  item_name :: jsstring
  item_reason :: jsstring


text \<open>The loop over the agent artifacts, with its \<open>try\<close> and \<open>catch\<close> around each: the file
  system, the warnings, \<open>agentCount\<close> and \<open>skippedItems\<close>.\<close>

fun processAll ::
  "env \<Rightarrow> path \<Rightarrow> path \<Rightarrow> artifact list \<Rightarrow> world \<times> nat \<times> skipped_item list
     \<Rightarrow> world \<times> nat \<times> skipped_item list" where
  "processAll E agentsDir projectDir [] st = st"
| "processAll E agentsDir projectDir (artifact # artifacts) ((fs, warnings), count, skipped) =
     (case processAgentArtifact E artifact agentsDir projectDir fs of
        (Inr _, fs') \<Rightarrow>
          processAll E agentsDir projectDir artifacts ((fs', warnings), count + 1, skipped)
      | (Inl (Error msg), fs') \<Rightarrow>
          processAll E agentsDir projectDir artifacts
            ((fs', warnings @ [js ''  Warning: Failed to process agent '' @ art_name artifact
                                 @ js '': '' @ msg]),
             count,
             skipped @ [\<lparr>item_type = js ''agent'', item_name = art_name artifact,
                         item_reason = msg\<rparr>]))"







section \<open>A concrete run\<close>

text \<open>The document of the specification's round-trip scenario; the icon is U+1F9ED.\<close>

definition demo_doc :: jsstring where
  "demo_doc = js ''<agent name='' @ [34] @ js ''pm'' @ [34] @ js '' title='' @ [34]
     @ js ''Product Manager'' @ [34] @ js '' icon='' @ [34] @ [55358, 56813] @ [34]
     @ js ''><persona><role>Leads planning</role></persona><menu><item cmd='' @ [34]
     @ js ''plan'' @ [34] @ js ''>Create plan</item></menu></agent>''"

definition demo_artifact :: artifact where
  "demo_artifact = \<lparr>art_name = js ''pm'', art_description = js ''The PM'',
     art_module = js ''bmm'', art_sourcePath = [js ''_bmad'', js ''pm.md'']\<rparr>"

definition demo_data :: agent_data where
  "demo_data = \<lparr>name = js ''pm'', title = js ''Product Manager'', icon = [55358, 56813],
     role = js ''Leads planning'', identity = [], communicationStyle = [],
     principles = PString [],
     menuItems = [\<lparr>trigger = js ''plan'', description = js ''Create plan''\<rparr>]\<rparr>"

definition demo_fs :: fs where
  "demo_fs = Map.empty([js ''agents''] \<mapsto> Dir [], [js ''_bmad'', js ''pm.md''] \<mapsto> File demo_doc)"

definition no_faults :: faults where
  "no_faults = \<lparr>readFault = (\<lambda>p. None), writeFault = (\<lambda>p. None),
     removeFault = (\<lambda>p. None), readdirFault = (\<lambda>p. None)\<rparr>"

definition demo_env :: env where
  "demo_env = \<lparr>lowerTable = (\<lambda>s i. [s ! i]), validate = (\<lambda>c. None),
     stringify = (\<lambda>c. js ''{ name: '' @ cfg_name c @ js '' }''), fsFaults = no_faults\<rparr>"

text \<open>The disk fills up before the second file is written, and the first file cannot be
  removed again.\<close>

definition stuck_faults :: faults where
  "stuck_faults = \<lparr>readFault = (\<lambda>p. None),
     writeFault = (\<lambda>p. if p = [js ''agents'', js ''bmad-bmm-pm.json''] then Some (js ''ENOSPC'') else None),
     removeFault = (\<lambda>p. if p = [js ''agents'', js ''bmad-bmm-pm-prompt.md''] then Some (js ''EPERM'') else None),
     readdirFault = (\<lambda>p. None)\<rparr>"

definition stuck_env :: env where
  "stuck_env = demo_env\<lparr>fsFaults := stuck_faults\<rparr>"

definition tag_only_doc :: jsstring where
  "tag_only_doc = js ''# PM'' @ [10] @ js ''<agent name='' @ [34] @ js ''pm'' @ [34] @ js ''>'' @ [10] @ js ''</agent>''"

definition pm_artifact :: artifact where
  "pm_artifact = \<lparr>art_name = js ''pm-file'', art_description = js ''Product Manager'',
     art_module = js ''bmm'', art_sourcePath = [js ''_bmad'', js ''bmm'', js ''agents'', js ''pm.md'']\<rparr>"

text \<open>A document whose tag has an attribute that is none of name, title and icon.\<close>

definition plain_doc :: jsstring where
  "plain_doc = js ''<agent id='' @ [34] @ js ''x'' @ [34] @ js ''>''"

definition full_disk_faults :: faults where
  "full_disk_faults = no_faults\<lparr>writeFault :=
     (\<lambda>p. if p = [js ''agents'', js ''bmad-bmm-pm.json''] then Some (js ''ENOSPC'') else None)\<rparr>"

definition full_disk_env :: env where
  "full_disk_env = demo_env\<lparr>fsFaults := full_disk_faults\<rparr>"

definition two_errors :: "ajv_error list" where
  "two_errors = [\<lparr>instancePath = js ''/name'', message = js ''must be string''\<rparr>,
                 \<lparr>instancePath = js ''/tools'', message = js ''must be array''\<rparr>]"

definition invalid_env :: env where
  "invalid_env = demo_env\<lparr>validate := (\<lambda>c. Some two_errors)\<rparr>"
















section \<open>Sanitization: the composition, the character class, idempotence\<close>

lemma first_success_greedy:
  "first_success f (rev [m..<Suc n]) =
     (if m \<le> n then (case f n of Some r \<Rightarrow> Some r | None \<Rightarrow> first_success f (rev [m..<n]))
      else None)"
  by simp

lemma matchHere_plus_single:
  "matchHere [Rep Plus P] (c # cs) =
     (if P c then Some ([], dropWhile P cs) else None)"
proof (cases "P c")
  case True
  then obtain n where n: "length (takeWhile P (c # cs)) = Suc n" by simp
  have "drop (Suc n) (c # cs) = dropWhile P (c # cs)"
    using n dropWhile_eq_drop [of P "c # cs"] by simp
  with True n show ?thesis by simp
next
  case False
  then show ?thesis by simp
qed

lemma matchHere_one_single:
  "matchHere [Rep One P] (c # cs) = (if P c then Some ([], cs) else None)"
  by simp

lemma replaceAll_collapse:
  "replaceAll [Rep Plus is_space] (js ''-'') s = spec_collapse_ws s"
proof (induction s rule: spec_collapse_ws.induct)
  case 1
  show ?case by simp
next
  case (2 c cs)
  have len: "length (dropWhile is_space cs) < Suc (length cs)"
    by (simp add: length_dropWhile_le less_Suc_eq_le)
  have hy: "js ''-'' = [45]" by (simp add: js_def)
  show ?case
  proof (cases "is_space c")
    case True
    with 2 len hy show ?thesis
      by (simp add: matchHere_plus_single del: matchHere.simps)
  next
    case False
    with 2 show ?thesis
      by (simp add: matchHere_plus_single del: matchHere.simps)
  qed
qed

lemma replaceAll_strip:
  "replaceAll [Rep One (\<lambda>c. \<not> P c)] [] s = filter P s"
proof (induction s)
  case Nil
  show ?case by simp
next
  case (Cons c cs)
  then show ?case by (simp add: matchHere_one_single del: matchHere.simps)
qed

lemma allowed_not_space: "allowed c \<Longrightarrow> \<not> is_space c"
  by (auto simp: allowed_def is_space_def)

lemma allowed_ascii_lower: "allowed c \<Longrightarrow> c < 128 \<and> ascii_lower c = c"
  by (auto simp: allowed_def ascii_lower_def)

lemma collapse_no_space: "list_all (\<lambda>c. \<not> is_space c) s \<Longrightarrow> spec_collapse_ws s = s"
  by (induction s) auto

lemma toLowerCase_allowed:
  assumes "list_all allowed s"
  shows "toLowerCase U s = s"
proof -
  have "\<forall>i < length s. (if s ! i < 128 then [ascii_lower (s ! i)] else U s i) = [s ! i]"
    using assms allowed_ascii_lower by (auto simp: list_all_length)
  then have "map (\<lambda>i. if s ! i < 128 then [ascii_lower (s ! i)] else U s i) [0..<length s]
      = map (\<lambda>i. [s ! i]) [0..<length s]"
    by simp
  also have "concat \<dots> = map (\<lambda>i. s ! i) [0..<length s]"
    by (induction "[0..<length s]") (simp_all add: concat_map_singleton)
  finally show ?thesis
    by (simp add: toLowerCase_def map_nth)
qed

lemma sanitize_eq_spec: "sanitizeAgentName U x = spec_sanitize U x"
  by (simp add: sanitizeAgentName_def spec_sanitize_def replaceAll_collapse replaceAll_strip)

lemma spec_sanitize_allowed: "list_all allowed (spec_sanitize U x)"
  by (simp add: spec_sanitize_def list_all_iff)

lemma spec_sanitize_fixed:
  assumes "list_all allowed s"
  shows "spec_sanitize U s = s"
proof -
  from assms have "list_all (\<lambda>c. \<not> is_space c) s"
    by (auto simp: list_all_iff allowed_not_space)
  then have "spec_collapse_ws s = s" by (rule collapse_no_space)
  moreover from assms have "filter allowed s = s" by (simp add: list_all_iff)
  ultimately show ?thesis
    using assms by (simp add: spec_sanitize_def toLowerCase_allowed)
qed

section \<open>Extraction: the matcher against the text\<close>

lemma matchHere_ncaps:
  "matchHere re s = Some (caps, rest) \<Longrightarrow> length caps = ngroups re"
proof (induction re arbitrary: s caps rest)
  case Nil
  then show ?case by simp
next
  case (Cons a as)
  show ?case
  proof (cases a)
    case (Lit l)
    with Cons show ?thesis by (auto split: if_splits)
  next
    case (Rep q P)
    with Cons.prems obtain k where "matchHere as (drop k s) = Some (caps, rest)"
      by (auto dest: first_success_Some)
    with Cons.IH Rep show ?thesis by auto
  next
    case (Grp q P)
    with Cons.prems obtain k where
      "(case matchHere as (drop k s) of None \<Rightarrow> None
                | Some (caps, rest) \<Rightarrow> Some (take k s # caps, rest)) = Some (caps, rest)"
      by (auto dest: first_success_Some)
    then obtain caps' where "matchHere as (drop k s) = Some (caps', rest)" "caps = take k s # caps'"
      by (auto split: option.splits)
    with Cons.IH Grp show ?thesis by auto
  qed
qed

lemma search_ncaps:
  "search re s = Some (caps, rest) \<Longrightarrow> length caps = ngroups re"
  by (induction s) (auto split: option.splits dest: matchHere_ncaps)

lemma match1_None_iff:
  assumes "0 < ngroups re"
  shows "match1 re s = None \<longleftrightarrow> \<not> occurs re s"
proof (cases "search re s")
  case None
  then show ?thesis by (simp add: match1_def search_None_iff [symmetric])
next
  case (Some r)
  obtain caps rest where r: "r = (caps, rest)" by (cases r)
  with Some search_ncaps [of re s caps rest] assms have "caps \<noteq> []" by auto
  then obtain c cs where "caps = c # cs" by (cases caps) auto
  with Some r show ?thesis by (simp add: match1_def search_None_iff [symmetric])
qed

lemma lang_lit_grp_lit:
  "lang [Lit a, Grp q P, Lit b] m \<longleftrightarrow> (\<exists>v. m = a @ v @ b \<and> reps q P v)"
  by simp blast

lemma lang_agentTag:
  "lang [Lit a, Rep Plus P, Grp Plus Q, Lit b] m \<longleftrightarrow>
     (\<exists>ws v. m = a @ ws @ v @ b \<and> reps Plus P ws \<and> reps Plus Q v)"
  by simp blast

lemma reps_Plus: "reps Plus P v \<longleftrightarrow> v \<noteq> [] \<and> list_all P v"
  by (auto simp: reps_def)

lemma reps_LazyStar_any: "reps LazyStar (\<lambda>c. True) v"
  by (simp add: reps_def list_all_iff)

lemma occurs_lit_grp_lit:
  "occurs [Lit a, Grp q P, Lit b] s \<longleftrightarrow>
     (\<exists>pre v post. s = pre @ a @ v @ b @ post \<and> reps q P v)"
proof
  assume "occurs [Lit a, Grp q P, Lit b] s"
  then obtain pre m post v where "s = pre @ m @ post" "m = a @ v @ b" "reps q P v"
    unfolding occurs_def lang_lit_grp_lit by blast
  then have "s = pre @ a @ v @ b @ post \<and> reps q P v" by simp
  then show "\<exists>pre v post. s = pre @ a @ v @ b @ post \<and> reps q P v" by blast
next
  assume "\<exists>pre v post. s = pre @ a @ v @ b @ post \<and> reps q P v"
  then obtain pre v post where v: "s = pre @ a @ v @ b @ post" "reps q P v" by blast
  then have "s = pre @ (a @ v @ b) @ post" by simp
  moreover have "lang [Lit a, Grp q P, Lit b] (a @ v @ b)"
    unfolding lang_lit_grp_lit using v(2) by blast
  ultimately show "occurs [Lit a, Grp q P, Lit b] s" unfolding occurs_def by blast
qed

lemma occurs_agentTag: "occurs agentTagRe content \<longleftrightarrow> has_agent_tag content"
proof
  assume "occurs agentTagRe content"
  then obtain pre m post ws v where "content = pre @ m @ post" "m = js ''<agent'' @ ws @ v @ js ''>''"
    "reps Plus is_space ws" "reps Plus (\<lambda>c. c \<noteq> 62) v"
    unfolding occurs_def agentTagRe_def lang_agentTag by blast
  then have "content = pre @ js ''<agent'' @ ws @ v @ js ''>'' @ post
      \<and> ws \<noteq> [] \<and> list_all is_space ws \<and> v \<noteq> [] \<and> list_all (\<lambda>c. c \<noteq> 62) v"
    by (simp add: reps_Plus)
  then show "has_agent_tag content" unfolding has_agent_tag_def by blast
next
  assume "has_agent_tag content"
  then obtain pre ws v post where v: "content = pre @ js ''<agent'' @ ws @ v @ js ''>'' @ post"
    "ws \<noteq> []" "list_all is_space ws" "v \<noteq> []" "list_all (\<lambda>c. c \<noteq> 62) v"
    unfolding has_agent_tag_def by blast
  then have "content = pre @ (js ''<agent'' @ ws @ v @ js ''>'') @ post" by simp
  moreover have "lang agentTagRe (js ''<agent'' @ ws @ v @ js ''>'')"
    unfolding agentTagRe_def lang_agentTag reps_Plus using v by blast
  ultimately show "occurs agentTagRe content" unfolding occurs_def by blast
qed

lemma occurs_block: "occurs (blockRe t) content \<longleftrightarrow> has_block t content"
  unfolding has_block_def blockRe_def occurs_lit_grp_lit
  by (simp add: reps_LazyStar_any)

lemma occurs_attr: "occurs (attrRe a) attrs \<longleftrightarrow> has_attr a attrs"
  unfolding has_attr_def attrRe_def occurs_lit_grp_lit reps_Plus
  by simp
lemma ngroups_res [simp]:
  "0 < ngroups agentTagRe" "0 < ngroups (blockRe t)" "0 < ngroups (attrRe a)" "0 < ngroups (fieldRe t)"
  by (simp_all add: agentTagRe_def blockRe_def attrRe_def fieldRe_def)

lemma match1_agentTag: "match1 agentTagRe content = None \<longleftrightarrow> \<not> has_agent_tag content"
  by (simp add: match1_None_iff occurs_agentTag)

lemma match1_block: "match1 (blockRe t) content = None \<longleftrightarrow> \<not> has_block t content"
  by (simp add: match1_None_iff occurs_block)

lemma match1_attr: "match1 (attrRe a) attrs = None \<longleftrightarrow> \<not> has_attr a attrs"
  by (simp add: match1_None_iff occurs_attr)

lemmas parse_eval_defs =
  parseCompiledAgent_def match1_def agentTagRe_def attrRe_def blockRe_def fieldRe_def
  persona_field_def itemRe_def trim_def is_space_def js_def Let_def robot_glyph_def

lemma parse_tag_only:
  "parseCompiledAgent tag_only_doc pm_artifact =
     Some \<lparr>name = js ''pm'', title = js ''Product Manager'', icon = [55358, 56598],
            role = [], identity = [], communicationStyle = [], principles = PString [],
            menuItems = []\<rparr>"
  by (simp add: parse_eval_defs tag_only_doc_def pm_artifact_def)

section \<open>The prompt document and the configuration object\<close>

lemma menuLines_eq:
  "menuLines i items prompt
     = prompt @ concat (map spec_menu_line (zip [Suc i..<Suc i + length items] items))"
proof (induction items arbitrary: i prompt)
  case Nil
  show ?case by simp
next
  case (Cons item items)
  have "[Suc i..<Suc i + length (item # items)] = Suc i # [Suc (Suc i)..<Suc (Suc i) + length items]"
    by (simp add: upt_rec)
  then show ?case
    by (simp add: Cons.IH spec_menu_line_def)
qed

lemma split_sep_no_slash: "47 \<notin> set s \<Longrightarrow> split_sep s = [s]"
  by (induction s) auto

lemma posix_join_dot_segment:
  assumes "47 \<notin> set x" and "3 \<le> length x"
  shows "posix_join [js ''.'', x] = x"
proof -
  from assms(2) have ne: "x \<noteq> []" "x \<noteq> js ''.''" "x \<noteq> js ''..''"
    by (auto simp: js_def)
  have dot: "js ''.'' = [46]" "js ''/'' = [47]" by (simp_all add: js_def)
  have "split_sep (js ''.'' @ js ''/'' @ x) = [js ''.'', x]"
    using assms(1) by (simp add: dot split_sep_no_slash)
  moreover have "last x \<noteq> 47"
    by (metis assms(1) ne(1) last_in_set)
  ultimately show ?thesis
    using ne by (simp add: posix_join_def posix_normalize_def Let_def dot)
qed

lemma allowed_no_slash: "list_all allowed n \<Longrightarrow> 47 \<notin> set n"
  by (auto simp: list_all_iff allowed_def)

lemma prompt_ref_sanitized:
  assumes "list_all allowed n"
  shows "posix_join [js ''.'', n @ js ''-prompt.md''] = n @ js ''-prompt.md''"
proof (rule posix_join_dot_segment)
  show "47 \<notin> set (n @ js ''-prompt.md'')"
    using allowed_no_slash [OF assms] by (simp add: js_def)
  show "3 \<le> length (n @ js ''-prompt.md'')" by (simp add: js_def)
qed


lemma createAgentConfig_Inr:
  "createAgentConfig V n d = Inr cfg \<longleftrightarrow> cfg = buildAgentConfig n d \<and> V (buildAgentConfig n d) = None"
  by (auto simp: createAgentConfig_def validateAgentJson_def Let_def split: option.splits)



section \<open>The pair of files\<close>

lemma pair_paths_distinct: "dir @ [n @ js ''.json''] \<noteq> dir @ [n @ js ''-prompt.md'']"
  by (simp add: js_def)

lemma butlast_snoc_path: "butlast (dir @ [n]) = dir" "last (dir @ [n]) = n"
  by simp_all

lemma writeFile_Inr_same:
  "writeFile F fs p c = Inr fs' \<Longrightarrow> fs' p = Some (File c)"
  by (auto simp: writeFile_def split: option.splits node.splits)

lemma writeFile_Inr_other_file:
  "writeFile F fs p c = Inr fs' \<Longrightarrow> q \<noteq> p \<Longrightarrow> q \<noteq> butlast p \<Longrightarrow> fs' q = fs q"
  by (auto simp: writeFile_def split: option.splits node.splits)

lemma writeFile_Inr_parent:
  "writeFile F fs p c = Inr fs' \<Longrightarrow> p \<noteq> [] \<Longrightarrow> \<exists>names. fs' (butlast p) = Some (Dir names)"
  by (auto simp: writeFile_def split: option.splits node.splits)

lemma delete_self: "delete p fs p = None"
  by (simp add: delete_def)

lemma delete_sibling:
  "length q = length p \<Longrightarrow> q \<noteq> p \<Longrightarrow> delete p fs q = fs q"
proof -
  assume l: "length q = length p" and ne: "q \<noteq> p"
  have "\<not> prefix p q"
  proof
    assume "prefix p q"
    then obtain t where "q = p @ t" by (auto simp: prefix_def)
    with l ne show False by simp
  qed
  moreover have "q \<noteq> butlast p"
  proof
    assume "q = butlast p"
    then have "length q = length p - 1" by simp
    with l ne show False by (cases p) auto
  qed
  ultimately show ?thesis by (simp add: delete_def)
qed

lemma removeQuietly_cases:
  "removeQuietly E fs p = (if removeFault (fsFaults E) p = None then delete p fs else fs)"
  by (auto simp: removeQuietly_def remove_def split: option.splits)



lemma process_unfold:
  assumes "readFile (fsFaults E) fs (art_sourcePath a) = Inr content"
      and "parseCompiledAgent content a = Some d"
  shows "processAgentArtifact E a agentsDir projectDir fs =
     (case generatePair E (sanitizedNameOf E a) d (jsonPathOf E a agentsDir)
             (promptPathOf E a agentsDir) fs of
        (Inr _, fs') \<Rightarrow> (Inr (), fs')
      | (Inl error, fs1) \<Rightarrow>
          (Inl error, removeQuietly E (removeQuietly E fs1 (promptPathOf E a agentsDir))
                        (jsonPathOf E a agentsDir)))"
  unfolding processAgentArtifact_def Let_def sanitizedNameOf_def jsonPathOf_def promptPathOf_def
  using assms by simp

lemma generatePair_Inr:
  assumes "generatePair E n d (dir @ [n @ js ''.json'']) (dir @ [n @ js ''-prompt.md'']) fs = (Inr u, fs')"
  shows "\<exists>cfg. createAgentConfig (validate E) n d = Inr cfg
           \<and> fs' (dir @ [n @ js ''.json'']) = Some (File (stringify E cfg @ [10]))
           \<and> fs' (dir @ [n @ js ''-prompt.md'']) = Some (File (generatePrompt d))"
proof -
  let ?j = "dir @ [n @ js ''.json'']" and ?p = "dir @ [n @ js ''-prompt.md'']"
  from assms obtain cfg fs1 where
    cfg: "createAgentConfig (validate E) n d = Inr cfg"
    and w1: "writeFile (fsFaults E) fs ?p (generatePrompt d) = Inr fs1"
    and w2: "writeFile (fsFaults E) fs1 ?j (stringify E cfg @ [10]) = Inr fs'"
    by (auto simp: generatePair_def writeJson_def Let_def split: sum.splits)
  have "fs' ?j = Some (File (stringify E cfg @ [10]))"
    using w2 by (rule writeFile_Inr_same)
  moreover have "fs' ?p = fs1 ?p"
    using w2 by (rule writeFile_Inr_other_file) (simp_all add: js_def)
  moreover have "fs1 ?p = Some (File (generatePrompt d))"
    using w1 by (rule writeFile_Inr_same)
  ultimately show ?thesis using cfg by simp
qed



lemma demo_parse: "parseCompiledAgent demo_doc demo_artifact = Some demo_data"
  by (simp add: parse_eval_defs demo_doc_def demo_artifact_def demo_data_def execItems.simps)

lemma demo_sanitized:
  "sanitizedNameOf demo_env demo_artifact = js ''bmad-bmm-pm''"
  "sanitizedNameOf stuck_env demo_artifact = js ''bmad-bmm-pm''"
  by (simp_all add: sanitizedNameOf_def demo_env_def stuck_env_def demo_artifact_def
      sanitizeAgentName_def toLowerCase_def ascii_lower_def js_def is_space_def allowed_def upt_rec)

lemma demo_read:
  "readFile (fsFaults demo_env) demo_fs (art_sourcePath demo_artifact) = Inr demo_doc"
  "readFile (fsFaults stuck_env) demo_fs (art_sourcePath demo_artifact) = Inr demo_doc"
  by (simp_all add: readFile_def demo_env_def stuck_env_def no_faults_def stuck_faults_def
      demo_fs_def demo_artifact_def js_def)

lemma demo_paths:
  "jsonPathOf stuck_env demo_artifact [js ''agents''] = [js ''agents'', js ''bmad-bmm-pm.json'']"
  "promptPathOf stuck_env demo_artifact [js ''agents''] = [js ''agents'', js ''bmad-bmm-pm-prompt.md'']"
  "jsonPathOf demo_env demo_artifact [js ''agents''] = [js ''agents'', js ''bmad-bmm-pm.json'']"
  "promptPathOf demo_env demo_artifact [js ''agents''] = [js ''agents'', js ''bmad-bmm-pm-prompt.md'']"
  by (simp_all add: jsonPathOf_def promptPathOf_def demo_sanitized) (simp_all add: js_def)

lemmas run_eval_defs =
  generatePair_def createAgentConfig_def validateAgentJson_def writeJson_def
  writeFile_def removeQuietly_def remove_def delete_def Let_def

lemma demo_sanitized2:
  "sanitizedNameOf full_disk_env demo_artifact = js ''bmad-bmm-pm''"
  "sanitizedNameOf invalid_env demo_artifact = js ''bmad-bmm-pm''"
  using demo_sanitized(1)
  by (simp_all add: sanitizedNameOf_def full_disk_env_def invalid_env_def demo_env_def)

lemma demo_read2:
  "readFile (fsFaults full_disk_env) demo_fs (art_sourcePath demo_artifact) = Inr demo_doc"
  "readFile (fsFaults invalid_env) demo_fs (art_sourcePath demo_artifact) = Inr demo_doc"
  by (simp_all add: readFile_def demo_env_def full_disk_env_def invalid_env_def no_faults_def
      full_disk_faults_def demo_fs_def demo_artifact_def js_def)

lemma demo_paths2:
  "jsonPathOf full_disk_env demo_artifact [js ''agents''] = [js ''agents'', js ''bmad-bmm-pm.json'']"
  "promptPathOf full_disk_env demo_artifact [js ''agents''] = [js ''agents'', js ''bmad-bmm-pm-prompt.md'']"
  "jsonPathOf invalid_env demo_artifact [js ''agents''] = [js ''agents'', js ''bmad-bmm-pm.json'']"
  "promptPathOf invalid_env demo_artifact [js ''agents''] = [js ''agents'', js ''bmad-bmm-pm-prompt.md'']"
  by (simp_all add: jsonPathOf_def promptPathOf_def demo_sanitized2) (simp_all add: js_def)

lemma demo_run_ok:
  "fst (processAgentArtifact demo_env demo_artifact [js ''agents''] [] demo_fs) = Inr ()"
  unfolding process_unfold [OF demo_read(1) demo_parse] demo_paths demo_sanitized
  by (simp add: run_eval_defs demo_env_def no_faults_def demo_fs_def js_def)

lemma full_disk_run:
  "fst (processAgentArtifact full_disk_env demo_artifact [js ''agents''] [] demo_fs)
     = Inl (Error (js ''ENOSPC''))"
  unfolding process_unfold [OF demo_read2(1) demo_parse] demo_paths2 demo_sanitized2
  by (simp add: run_eval_defs full_disk_env_def demo_env_def full_disk_faults_def no_faults_def
      demo_fs_def js_def)

lemma plain_attrs: "match1 agentTagRe plain_doc = Some (js ''id='' @ [34] @ js ''x'' @ [34])"
  by (simp add: match1_def agentTagRe_def plain_doc_def js_def is_space_def)

lemma plain_parse:
  "parseCompiledAgent plain_doc pm_artifact =
     Some \<lparr>name = js ''pm-file'', title = js ''Product Manager'', icon = robot_glyph,
            role = [], identity = [], communicationStyle = [], principles = PString [],
            menuItems = []\<rparr>"
  by (simp add: parse_eval_defs plain_doc_def pm_artifact_def)

section \<open>Cleanup, discovery and the run\<close>











lemma two_dirs_neq_parent: "P @ [k, a] @ rest \<noteq> P @ [k]"
  by simp



















lemma processAll_append:
  "processAll E ad pd (xs @ ys) st = processAll E ad pd ys (processAll E ad pd xs st)"
proof (induction xs arbitrary: st)
  case Nil
  show ?case by simp
next
  case (Cons a xs)
  obtain fs w n sk where st: "st = ((fs, w), n, sk)" by (cases st) auto
  show ?case
    unfolding st by (simp add: Cons.IH split: prod.splits sum.splits error.splits)
qed

















section \<open>Claims\<close>

text \<open>
  C1, as amended. For an artifact whose source is read and yields a record: the outcome of
  \<open>processAgentArtifact\<close> is the outcome of generating the pair (the original error is the
  one propagated); when it returns normally, both files are there, the configuration file
  with the validated object and the prompt file with the prompt; when it throws and
  neither of the two removals fails, neither file is there. Nothing is promised about the
  pair when a removal fails: its error is swallowed and the file stays.
\<close>

theorem processAgentArtifact_pair:
  assumes "readFile (fsFaults E) fs (art_sourcePath a) = Inr content"
      and "parseCompiledAgent content a = Some d"
  shows "fst (processAgentArtifact E a agentsDir projectDir fs)
           = fst (generatePair E (sanitizedNameOf E a) d (jsonPathOf E a agentsDir)
                    (promptPathOf E a agentsDir) fs)
       \<and> (fst (processAgentArtifact E a agentsDir projectDir fs) = Inr () \<longrightarrow>
            (\<exists>cfg. createAgentConfig (validate E) (sanitizedNameOf E a) d = Inr cfg
               \<and> snd (processAgentArtifact E a agentsDir projectDir fs) (jsonPathOf E a agentsDir)
                   = Some (File (stringify E cfg @ [10])))
            \<and> snd (processAgentArtifact E a agentsDir projectDir fs) (promptPathOf E a agentsDir)
                = Some (File (generatePrompt d)))
       \<and> (fst (processAgentArtifact E a agentsDir projectDir fs) \<noteq> Inr ()
          \<and> removeFault (fsFaults E) (promptPathOf E a agentsDir) = None
          \<and> removeFault (fsFaults E) (jsonPathOf E a agentsDir) = None \<longrightarrow>
            snd (processAgentArtifact E a agentsDir projectDir fs) (jsonPathOf E a agentsDir) = None
            \<and> snd (processAgentArtifact E a agentsDir projectDir fs) (promptPathOf E a agentsDir) = None)"
proof -
  let ?n = "sanitizedNameOf E a"
  let ?j = "jsonPathOf E a agentsDir" and ?p = "promptPathOf E a agentsDir"
  obtain r fs1 where g: "generatePair E ?n d ?j ?p fs = (r, fs1)" by (cases "generatePair E ?n d ?j ?p fs")
  note u = process_unfold [OF assms, of agentsDir projectDir]
  show ?thesis
  proof (cases r)
    case (Inr x)
    with g u have res: "processAgentArtifact E a agentsDir projectDir fs = (Inr (), fs1)" by simp
    from g Inr have gu: "generatePair E ?n d (agentsDir @ [?n @ js ''.json''])
        (agentsDir @ [?n @ js ''-prompt.md'']) fs = (Inr (), fs1)"
      by (simp add: jsonPathOf_def promptPathOf_def)
    from generatePair_Inr [OF gu]
    show ?thesis by (auto simp: res gu jsonPathOf_def promptPathOf_def)
  next
    case (Inl e)
    with g u have res: "processAgentArtifact E a agentsDir projectDir fs
        = (Inl e, removeQuietly E (removeQuietly E fs1 ?p) ?j)" by simp
    have pj: "?p \<noteq> ?j" "length ?p = length ?j"
      using pair_paths_distinct [of agentsDir ?n] by (auto simp: jsonPathOf_def promptPathOf_def)
    then show ?thesis
      by (simp add: res g Inl removeQuietly_cases delete_self delete_sibling)
  qed
qed

text \<open>Both cases on the concrete run: without faults both files are written; when the
  second write fails and the removals succeed, neither file is left.\<close>

theorem processAgentArtifact_pair_witness:
  "fst (processAgentArtifact demo_env demo_artifact [js ''agents''] [] demo_fs) = Inr ()
   \<and> snd (processAgentArtifact demo_env demo_artifact [js ''agents''] [] demo_fs)
         [js ''agents'', js ''bmad-bmm-pm.json'']
       = Some (File (stringify demo_env (buildAgentConfig (js ''bmad-bmm-pm'') demo_data) @ [10]))
   \<and> snd (processAgentArtifact demo_env demo_artifact [js ''agents''] [] demo_fs)
         [js ''agents'', js ''bmad-bmm-pm-prompt.md'']
       = Some (File (generatePrompt demo_data))
   \<and> fst (processAgentArtifact full_disk_env demo_artifact [js ''agents''] [] demo_fs)
       = Inl (Error (js ''ENOSPC''))
   \<and> removeFault (fsFaults full_disk_env) [js ''agents'', js ''bmad-bmm-pm-prompt.md''] = None
   \<and> removeFault (fsFaults full_disk_env) [js ''agents'', js ''bmad-bmm-pm.json''] = None
   \<and> snd (processAgentArtifact full_disk_env demo_artifact [js ''agents''] [] demo_fs)
         [js ''agents'', js ''bmad-bmm-pm.json''] = None
   \<and> snd (processAgentArtifact full_disk_env demo_artifact [js ''agents''] [] demo_fs)
         [js ''agents'', js ''bmad-bmm-pm-prompt.md''] = None"
proof -
  have rf: "removeFault (fsFaults full_disk_env) [js ''agents'', js ''bmad-bmm-pm-prompt.md''] = None"
    "removeFault (fsFaults full_disk_env) [js ''agents'', js ''bmad-bmm-pm.json''] = None"
    by (simp_all add: full_disk_env_def full_disk_faults_def no_faults_def)
  have v: "validate demo_env (buildAgentConfig (js ''bmad-bmm-pm'') demo_data) = None"
    by (simp add: demo_env_def)
  note ok = processAgentArtifact_pair [OF demo_read(1) demo_parse, of "[js ''agents'']" "[]"]
  note bad = processAgentArtifact_pair [OF demo_read2(1) demo_parse, of "[js ''agents'']" "[]"]
  from ok demo_run_ok v have A:
    "snd (processAgentArtifact demo_env demo_artifact [js ''agents''] [] demo_fs)
         [js ''agents'', js ''bmad-bmm-pm.json'']
       = Some (File (stringify demo_env (buildAgentConfig (js ''bmad-bmm-pm'') demo_data) @ [10]))"
    "snd (processAgentArtifact demo_env demo_artifact [js ''agents''] [] demo_fs)
         [js ''agents'', js ''bmad-bmm-pm-prompt.md'']
       = Some (File (generatePrompt demo_data))"
    by (auto simp: demo_paths demo_sanitized createAgentConfig_Inr)
  from bad full_disk_run rf have B:
    "snd (processAgentArtifact full_disk_env demo_artifact [js ''agents''] [] demo_fs)
         [js ''agents'', js ''bmad-bmm-pm.json''] = None"
    "snd (processAgentArtifact full_disk_env demo_artifact [js ''agents''] [] demo_fs)
         [js ''agents'', js ''bmad-bmm-pm-prompt.md''] = None"
    by (simp_all add: demo_paths2)
  from demo_run_ok full_disk_run rf A B show ?thesis by simp
qed

text \<open>
  C1 as stated fails: neither file exists before the call; the prompt file is written, the
  write of the configuration file fails, the removal of the prompt file fails and is
  swallowed; the call throws the write error and exactly one file of the pair is left.
\<close>

theorem half_written_pair_counterexample:
  "demo_fs [js ''agents'', js ''bmad-bmm-pm-prompt.md''] = None
   \<and> demo_fs [js ''agents'', js ''bmad-bmm-pm.json''] = None
   \<and> parseCompiledAgent demo_doc demo_artifact = Some demo_data
   \<and> fst (processAgentArtifact stuck_env demo_artifact [js ''agents''] [] demo_fs)
       = Inl (Error (js ''ENOSPC''))
   \<and> snd (processAgentArtifact stuck_env demo_artifact [js ''agents''] [] demo_fs)
         [js ''agents'', js ''bmad-bmm-pm-prompt.md''] = Some (File (generatePrompt demo_data))
   \<and> snd (processAgentArtifact stuck_env demo_artifact [js ''agents''] [] demo_fs)
         [js ''agents'', js ''bmad-bmm-pm.json''] = None"
  unfolding process_unfold [OF demo_read(2) demo_parse] demo_paths demo_sanitized
  by (simp add: run_eval_defs stuck_env_def demo_env_def stuck_faults_def demo_fs_def js_def
      demo_parse)

text \<open>
  C2. \<open>sanitizeAgentName\<close> is the composition of lower-casing, replacing every maximal run
  of white space by one hyphen, and deleting every character outside \<open>[a-z0-9-]\<close>; its
  result consists of characters of \<open>[a-z0-9-]\<close> only, and sanitizing twice is sanitizing
  once. This holds whatever the Unicode tables \<open>U\<close> of the runtime are.
\<close>

theorem sanitizeAgentName_composition_idempotent:
  "sanitizeAgentName U x = filter allowed (spec_collapse_ws (toLowerCase U x))
   \<and> list_all allowed (sanitizeAgentName U x)
   \<and> sanitizeAgentName U (sanitizeAgentName U x) = sanitizeAgentName U x"
  using spec_sanitize_allowed [of U x] spec_sanitize_fixed [of "spec_sanitize U x" U]
  by (simp add: sanitize_eq_spec) (simp add: spec_sanitize_def)

theorem sanitizeAgentName_witness:
  "sanitizeAgentName (\<lambda>s i. [s ! i]) (js ''BMad  Core/PM 2'') = js ''bmad-corepm-2''
   \<and> sanitizeAgentName (\<lambda>s i. [s ! i]) (js ''bmad-corepm-2'') = js ''bmad-corepm-2''"
proof -
  have a: "sanitizeAgentName (\<lambda>s i. [s ! i]) (js ''BMad  Core/PM 2'') = js ''bmad-corepm-2''"
    by (simp add: sanitizeAgentName_def toLowerCase_def ascii_lower_def js_def
        is_space_def allowed_def upt_rec)
  have "sanitizeAgentName (\<lambda>s i. [s ! i]) (sanitizeAgentName (\<lambda>s i. [s ! i]) (js ''BMad  Core/PM 2''))
      = sanitizeAgentName (\<lambda>s i. [s ! i]) (js ''BMad  Core/PM 2'')"
    using sanitizeAgentName_composition_idempotent [of "\<lambda>s i. [s ! i]" "js ''BMad  Core/PM 2''"]
    by blast
  then show ?thesis unfolding a using a by simp
qed

text \<open>
  C3. \<open>parseCompiledAgent\<close> returns no record exactly when the text has no opening agent
  tag with attributes. With the tag and without a persona block it returns a record whose
  role, identity, communication style and principles are the empty string; with the tag
  and without a menu block it returns a record whose menu is empty. The function is total:
  no absence is an error.
\<close>

theorem parseCompiledAgent_absences:
  "(parseCompiledAgent content artifact = None \<longleftrightarrow> \<not> has_agent_tag content)
   \<and> (has_agent_tag content \<and> \<not> has_block ''persona'' content \<longrightarrow>
        (\<exists>d. parseCompiledAgent content artifact = Some d
           \<and> role d = [] \<and> identity d = [] \<and> communicationStyle d = []
           \<and> principles d = PString []))
   \<and> (has_agent_tag content \<and> \<not> has_block ''menu'' content \<longrightarrow>
        (\<exists>d. parseCompiledAgent content artifact = Some d \<and> menuItems d = []))"
proof (intro conjI impI)
  show "parseCompiledAgent content artifact = None \<longleftrightarrow> \<not> has_agent_tag content"
    using match1_agentTag [of content]
    by (cases "match1 agentTagRe content")
       (simp_all add: parseCompiledAgent_def Let_def split: prod.splits)
next
  assume "has_agent_tag content \<and> \<not> has_block ''persona'' content"
  then have "match1 agentTagRe content \<noteq> None" "match1 (blockRe ''persona'') content = None"
    by (simp_all add: match1_agentTag match1_block)
  then show "\<exists>d. parseCompiledAgent content artifact = Some d
           \<and> role d = [] \<and> identity d = [] \<and> communicationStyle d = []
           \<and> principles d = PString []"
    by (auto simp: parseCompiledAgent_def Let_def)
next
  assume "has_agent_tag content \<and> \<not> has_block ''menu'' content"
  then have "match1 agentTagRe content \<noteq> None" "match1 (blockRe ''menu'') content = None"
    by (simp_all add: match1_agentTag match1_block)
  then show "\<exists>d. parseCompiledAgent content artifact = Some d \<and> menuItems d = []"
    by (auto simp: parseCompiledAgent_def Let_def split: prod.splits)
qed

text \<open>A document with a tag and neither block, and a document without a tag.\<close>

theorem parseCompiledAgent_absences_witness:
  "has_agent_tag tag_only_doc \<and> \<not> has_block ''persona'' tag_only_doc
   \<and> \<not> has_block ''menu'' tag_only_doc
   \<and> parseCompiledAgent (js ''# no tag here'') pm_artifact = None
   \<and> \<not> has_agent_tag (js ''# no tag here'')
   \<and> (\<exists>d. parseCompiledAgent tag_only_doc pm_artifact = Some d
         \<and> role d = [] \<and> identity d = [] \<and> communicationStyle d = []
         \<and> principles d = PString [] \<and> menuItems d = [])"
proof -
  have tag: "has_agent_tag tag_only_doc"
    using parseCompiledAgent_absences [of tag_only_doc pm_artifact] parse_tag_only by simp
  have p: "\<not> has_block ''persona'' tag_only_doc"
    unfolding match1_block [symmetric]
    by (simp add: match1_def blockRe_def tag_only_doc_def js_def)
  have m: "\<not> has_block ''menu'' tag_only_doc"
    unfolding match1_block [symmetric]
    by (simp add: match1_def blockRe_def tag_only_doc_def js_def)
  have n: "parseCompiledAgent (js ''# no tag here'') pm_artifact = None"
    by (simp add: parse_eval_defs)
  have nt: "\<not> has_agent_tag (js ''# no tag here'')"
    using parseCompiledAgent_absences [of "js ''# no tag here''" pm_artifact] n by simp
  show ?thesis
    using tag p m n nt parse_tag_only by simp
qed








text \<open>
  C7. Every record that \<open>parseCompiledAgent\<close> returns has a string as its principles; and for
  a record whose principles are a string the prompt is the title line, then one section for
  each of role, identity, communication style and principles whose text is not empty and
  none for an empty one, then the menu section when there is an entry, its entries numbered
  from 1 in order as \<open>n. **trigger**: description\<close>, and last, always, the closing paragraph
  that names the agent.
\<close>

theorem generatePrompt_sections:
  "(parseCompiledAgent content artifact = Some d' \<longrightarrow> (\<exists>p'. principles d' = PString p'))
   \<and> (principles d = PString p \<longrightarrow>
        generatePrompt d =
           js ''# '' @ name d @ js '' '' @ icon d @ [10, 10]
           @ spec_section ''Role'' (role d)
           @ spec_section ''Identity'' (identity d)
           @ spec_section ''Communication Style'' (communicationStyle d)
           @ spec_section ''Principles'' p
           @ spec_menu_section (menuItems d)
           @ spec_closing (name d))"
proof (intro conjI impI)
  assume "parseCompiledAgent content artifact = Some d'"
  then show "\<exists>p'. principles d' = PString p'"
    by (auto simp: parseCompiledAgent_def Let_def split: option.splits prod.splits)
next
  assume "principles d = PString p"
  then show "generatePrompt d =
           js ''# '' @ name d @ js '' '' @ icon d @ [10, 10]
           @ spec_section ''Role'' (role d)
           @ spec_section ''Identity'' (identity d)
           @ spec_section ''Communication Style'' (communicationStyle d)
           @ spec_section ''Principles'' p
           @ spec_menu_section (menuItems d)
           @ spec_closing (name d)"
    by (simp add: generatePrompt_def Let_def spec_section_def spec_menu_section_def
        spec_closing_def menuLines_eq js_def)
qed

text \<open>The record parsed in the round-trip scenario: a role and one menu entry.\<close>

theorem generatePrompt_sections_witness:
  "parseCompiledAgent demo_doc demo_artifact = Some demo_data
   \<and> principles demo_data = PString []
   \<and> generatePrompt demo_data =
       js ''# pm '' @ [55358, 56813] @ [10, 10]
       @ js ''## Role'' @ [10] @ js ''Leads planning'' @ [10, 10]
       @ js ''## Available Workflows'' @ [10] @ js ''1. **plan**: Create plan'' @ [10, 10]
       @ js ''## Instructions'' @ [10]
       @ js ''You are pm, part of the BMad Method. Follow your role and principles while assisting users with their development needs.''
       @ [10]"
proof -
  have p: "principles demo_data = PString []" by (simp add: demo_data_def)
  from generatePrompt_sections [of demo_doc demo_artifact demo_data demo_data "[]"] p
  have g: "generatePrompt demo_data =
           js ''# '' @ name demo_data @ js '' '' @ icon demo_data @ [10, 10]
           @ spec_section ''Role'' (role demo_data)
           @ spec_section ''Identity'' (identity demo_data)
           @ spec_section ''Communication Style'' (communicationStyle demo_data)
           @ spec_section ''Principles'' []
           @ spec_menu_section (menuItems demo_data)
           @ spec_closing (name demo_data)"
    by blast
  show ?thesis
    unfolding g
    by (simp add: p demo_parse) (simp add: demo_data_def spec_section_def spec_menu_section_def
        spec_menu_line_def spec_closing_def decimal.simps js_def)
qed




text \<open>
  C9. The object that \<open>createAgentConfig\<close> returns has the identifier as its name, the
  description \<open>name - role\<close>, or \<open>name - title\<close> when the role is empty, and the prompt
  reference \<open>file://\<close> followed by the posix join of \<open>.\<close> and \<open><identifier>-prompt.md\<close>,
  which for an identifier of \<open>[a-z0-9-]*\<close>, as sanitization yields, is
  \<open>file://<identifier>-prompt.md\<close>; and it is the object the validator accepted.
\<close>

theorem createAgentConfig_fields:
  "createAgentConfig V n d = Inr cfg \<Longrightarrow>
     cfg_name cfg = n
   \<and> cfg_description cfg = name d @ js '' - '' @ (if role d \<noteq> [] then role d else title d)
   \<and> cfg_prompt cfg = js ''file://'' @ posix_join [js ''.'', n @ js ''-prompt.md'']
   \<and> (list_all allowed n \<longrightarrow> cfg_prompt cfg = js ''file://'' @ n @ js ''-prompt.md'')
   \<and> V cfg = None"
  by (auto simp: createAgentConfig_Inr buildAgentConfig_def prompt_ref_sanitized)

text \<open>With a role, and with the role emptied.\<close>

theorem createAgentConfig_fields_witness:
  "createAgentConfig (\<lambda>c. None) (js ''bmad-bmm-pm'') demo_data
     = Inr (buildAgentConfig (js ''bmad-bmm-pm'') demo_data)
   \<and> list_all allowed (js ''bmad-bmm-pm'')
   \<and> cfg_name (buildAgentConfig (js ''bmad-bmm-pm'') demo_data) = js ''bmad-bmm-pm''
   \<and> cfg_description (buildAgentConfig (js ''bmad-bmm-pm'') demo_data) = js ''pm - Leads planning''
   \<and> cfg_prompt (buildAgentConfig (js ''bmad-bmm-pm'') demo_data) = js ''file://bmad-bmm-pm-prompt.md''
   \<and> cfg_description (buildAgentConfig (js ''bmad-bmm-pm'') (demo_data\<lparr>role := []\<rparr>))
       = js ''pm - Product Manager''"
proof -
  let ?cfg = "buildAgentConfig (js ''bmad-bmm-pm'') demo_data"
  let ?cfg' = "buildAgentConfig (js ''bmad-bmm-pm'') (demo_data\<lparr>role := []\<rparr>)"
  have c: "createAgentConfig (\<lambda>c. None) (js ''bmad-bmm-pm'') demo_data = Inr ?cfg"
    by (simp add: createAgentConfig_Inr)
  have c': "createAgentConfig (\<lambda>c. None) (js ''bmad-bmm-pm'') (demo_data\<lparr>role := []\<rparr>) = Inr ?cfg'"
    by (simp add: createAgentConfig_Inr)
  have a: "list_all allowed (js ''bmad-bmm-pm'')" by (simp add: js_def allowed_def)
  have r: "role demo_data \<noteq> []" "role (demo_data\<lparr>role := []\<rparr>) = []"
    by (simp_all add: demo_data_def js_def)
  note f = createAgentConfig_fields [OF c]
  from f have 1: "cfg_name ?cfg = js ''bmad-bmm-pm''" by blast
  from f r(1) have 2: "cfg_description ?cfg = name demo_data @ js '' - '' @ role demo_data"
    by simp
  from f a have 3: "cfg_prompt ?cfg = js ''file://'' @ js ''bmad-bmm-pm'' @ js ''-prompt.md''"
    by blast
  from createAgentConfig_fields [OF c'] r(2)
  have 4: "cfg_description ?cfg' = name (demo_data\<lparr>role := []\<rparr>) @ js '' - ''
      @ title (demo_data\<lparr>role := []\<rparr>)"
    by simp
  have 5: "name demo_data @ js '' - '' @ role demo_data = js ''pm - Leads planning''"
    "js ''file://'' @ js ''bmad-bmm-pm'' @ js ''-prompt.md'' = js ''file://bmad-bmm-pm-prompt.md''"
    "name (demo_data\<lparr>role := []\<rparr>) @ js '' - '' @ title (demo_data\<lparr>role := []\<rparr>)
      = js ''pm - Product Manager''"
    by (simp_all add: demo_data_def js_def)
  show ?thesis
    unfolding 1 2 3 4 5 using c a by simp
qed

text \<open>
  C10. When the attribute text of the agent tag has no \<open>icon\<close> attribute, the icon of the
  record is the fixed glyph U+1F916; when it has no \<open>name\<close> attribute the name is the
  artifact's name, when it has no \<open>title\<close> attribute the title is the artifact's
  description. The icon does not depend on the artifact at all.
\<close>

theorem parseCompiledAgent_icon_default:
  "parseCompiledAgent content artifact = Some d \<Longrightarrow>
   match1 agentTagRe content = Some attrs \<Longrightarrow>
     (\<not> has_attr ''icon'' attrs \<longrightarrow> icon d = robot_glyph)
   \<and> (\<not> has_attr ''name'' attrs \<longrightarrow> name d = art_name artifact)
   \<and> (\<not> has_attr ''title'' attrs \<longrightarrow> title d = art_description artifact)
   \<and> map_option icon (parseCompiledAgent content artifact')
       = map_option icon (parseCompiledAgent content artifact)"
  by (auto simp: parseCompiledAgent_def Let_def match1_attr [symmetric] robot_glyph_def
      split: prod.splits)

text \<open>A tag with none of the three attributes.\<close>

theorem parseCompiledAgent_icon_default_witness:
  "match1 agentTagRe plain_doc = Some (js ''id='' @ [34] @ js ''x'' @ [34])
   \<and> \<not> has_attr ''icon'' (js ''id='' @ [34] @ js ''x'' @ [34])
   \<and> \<not> has_attr ''name'' (js ''id='' @ [34] @ js ''x'' @ [34])
   \<and> \<not> has_attr ''title'' (js ''id='' @ [34] @ js ''x'' @ [34])
   \<and> map_option icon (parseCompiledAgent plain_doc pm_artifact) = Some robot_glyph
   \<and> map_option name (parseCompiledAgent plain_doc pm_artifact) = Some (js ''pm-file'')
   \<and> map_option title (parseCompiledAgent plain_doc pm_artifact) = Some (js ''Product Manager'')
   \<and> map_option icon (parseCompiledAgent plain_doc demo_artifact) = Some robot_glyph"
proof -
  let ?attrs = "js ''id='' @ [34] @ js ''x'' @ [34]"
  have na: "\<not> has_attr ''icon'' ?attrs" "\<not> has_attr ''name'' ?attrs" "\<not> has_attr ''title'' ?attrs"
    unfolding match1_attr [symmetric]
    by (simp_all add: match1_def attrRe_def js_def)
  from parseCompiledAgent_icon_default [OF plain_parse plain_attrs, of demo_artifact] na
  have "map_option icon (parseCompiledAgent plain_doc demo_artifact) = Some robot_glyph"
    by (simp add: plain_parse)
  moreover from parseCompiledAgent_icon_default [OF plain_parse plain_attrs, of demo_artifact] na
  have "map_option icon (parseCompiledAgent plain_doc pm_artifact) = Some robot_glyph
      \<and> map_option name (parseCompiledAgent plain_doc pm_artifact) = Some (art_name pm_artifact)
      \<and> map_option title (parseCompiledAgent plain_doc pm_artifact) = Some (art_description pm_artifact)"
    by (simp add: plain_parse)
  ultimately show ?thesis using na plain_attrs by (simp add: pm_artifact_def)
qed

end
